theory Spec2Isabelle
  imports Main "HOL-Library.Multiset"
begin

section \<open>Data model\<close>

text \<open>
  \<^verbatim>\<open>time.Time\<close> values are instants; the registry's timestamps are parsed from
  \<^verbatim>\<open>2006-01-02T15:04:05Z\<close>, so an instant is an integer and \<^verbatim>\<open>After\<close> and
  \<^verbatim>\<open>Before\<close> are the strict orders on it.
\<close>

type_synonym Time = int

definition After :: "Time \<Rightarrow> Time \<Rightarrow> bool" where
  "After t u \<longleftrightarrow> u < t"

definition Before :: "Time \<Rightarrow> Time \<Rightarrow> bool" where
  "Before t u \<longleftrightarrow> t < u"

text \<open>\<^verbatim>\<open>api.DockerImage\<close>.\<close>

record DockerImage =
  Name :: string
  Tag :: string
  ContentDigest :: string
  Created :: Time

text \<open>A Go \<^verbatim>\<open>error\<close> value returned by a registry call, with the text of its \<^verbatim>\<open>Error()\<close>.\<close>

datatype error = RegistryError string

fun error_string :: "error \<Rightarrow> string" where
  "error_string (RegistryError s) = s"

text \<open>
  \<^verbatim>\<open>api.DockerRegistry\<close>: the two methods \<^verbatim>\<open>fetch_images\<close> calls are HTTP requests, so the
  registry is the pair of its answers. \<^verbatim>\<open>Tags(repo)\<close> answers a tag list or an error;
  \<^verbatim>\<open>ImageDetails(image)\<close> takes the single string \<^verbatim>\<open>repository:tag\<close> and answers an
  image or an error (the caller looks at the image only when the error is nil). A registry
  value is one registry state: the same call has the same answer every time. A call that
  neither answers nor returns an error is not part of this model.
\<close>

record DockerRegistry =
  Tags :: "string \<Rightarrow> error + string list"
  ImageDetails :: "string \<Rightarrow> error + DockerImage"

text \<open>
  \<^verbatim>\<open>type ImgFilter func(img *api.DockerImage) bool\<close>: a predicate on the image. The
  filters the \<^verbatim>\<open>images\<close> command builds only read the image.
\<close>

type_synonym ImgFilter = "DockerImage \<Rightarrow> bool"

text \<open>The \<^verbatim>\<open>--older-than\<close> filter of the \<^verbatim>\<open>images\<close> command.\<close>

definition older_than :: "Time \<Rightarrow> ImgFilter" where
  "older_than t = (\<lambda>img. Before (Created img) t)"

text \<open>The struct \<^verbatim>\<open>repotags\<close> local to \<^verbatim>\<open>fetch_images\<close>.\<close>

record repotags =
  repo :: string
  tags :: "string list"

section \<open>Sorting by creation time\<close>

text \<open>The three methods of \<^verbatim>\<open>ByCreated\<close>, on the slice \<open>s\<close>.\<close>

definition ByCreated_Len :: "DockerImage list \<Rightarrow> nat" where
  "ByCreated_Len s = length s"

definition ByCreated_Swap :: "DockerImage list \<Rightarrow> nat \<Rightarrow> nat \<Rightarrow> DockerImage list" where
  "ByCreated_Swap s i j = s[i := s ! j, j := s ! i]"

definition ByCreated_Less :: "DockerImage list \<Rightarrow> nat \<Rightarrow> nat \<Rightarrow> bool" where
  "ByCreated_Less s i j = After (Created (s ! i)) (Created (s ! j))"

text \<open>
  \<^verbatim>\<open>sort.Sort\<close> belongs to the Go standard library. It touches the slice only through the
  three methods: it changes it by calls of \<^verbatim>\<open>Swap\<close> with indices below \<^verbatim>\<open>Len\<close>, and it
  returns when no element is \<^verbatim>\<open>Less\<close> than an element before it. It is not stable, so
  which of the slices that satisfy this it returns is left open. \<open>swapped s s'\<close>: the slice
  \<open>s'\<close> is reached from \<open>s\<close> by such calls of \<^verbatim>\<open>Swap\<close>.
\<close>

inductive swapped :: "DockerImage list \<Rightarrow> DockerImage list \<Rightarrow> bool" where
  swapped_refl: "swapped s s"
| swapped_step: "i < ByCreated_Len s \<Longrightarrow> j < ByCreated_Len s \<Longrightarrow>
    swapped (ByCreated_Swap s i j) s' \<Longrightarrow> swapped s s'"

definition sort_Sort :: "DockerImage list \<Rightarrow> DockerImage list \<Rightarrow> bool" where
  "sort_Sort s s' \<longleftrightarrow>
     swapped s s' \<and> (\<forall>i j. i < j \<and> j < ByCreated_Len s' \<longrightarrow> \<not> ByCreated_Less s' j i)"

section \<open>\<^verbatim>\<open>fetch_images\<close>\<close>

subsection \<open>The two kinds of goroutine\<close>

text \<open>
  A goroutine writes log lines and sends values on its channel; its model is the pair of
  the lines it writes and the values it sends. The limiter \<^verbatim>\<open><-throttle\<close> only delays the
  loop that starts the goroutines; time is not part of the model.

  The goroutine of the first loop, for the repository \<open>currepo\<close> (its own copy of the loop
  variable): on an error of \<^verbatim>\<open>r.Tags\<close> it sends nothing, and it has no \<^verbatim>\<open>else\<close> branch,
  so it writes nothing either.
\<close>

definition tag_worker :: "DockerRegistry \<Rightarrow> string \<Rightarrow> string list \<times> repotags list" where
  "tag_worker r currepo =
     (case Tags r currepo of
        Inr curtags \<Rightarrow> ([], [\<lparr>repo = currepo, tags = curtags\<rparr>])
      | Inl err \<Rightarrow> ([], []))"

text \<open>
  The line of \<^verbatim>\<open>log.Printf("Unable to get image (%s:%s): %s", ...)\<close>, without the date
  and time the logger puts in front.
\<close>

definition unable_to_get_image :: "string \<Rightarrow> string \<Rightarrow> error \<Rightarrow> string" where
  "unable_to_get_image rp tag err =
     ''Unable to get image ('' @ rp @ '':'' @ tag @ ''): '' @ error_string err"

text \<open>
  The goroutine of the second loop, for the copied \<open>tag\<close>. It reads
  \<^verbatim>\<open>currepotags.repo\<close> twice: once for the request (\<open>req_repo\<close>) and, when the request
  fails, once more for the log line (\<open>log_repo\<close>).
\<close>

definition img_worker ::
  "DockerRegistry \<Rightarrow> string \<Rightarrow> string \<Rightarrow> string \<Rightarrow> string list \<times> DockerImage list" where
  "img_worker r req_repo log_repo tag =
     (case ImageDetails r (req_repo @ '':'' @ tag) of
        Inr img \<Rightarrow> ([], [img])
      | Inl err \<Rightarrow> ([unable_to_get_image log_repo tag err], []))"

subsection \<open>Channels and the two loops that start goroutines\<close>

text \<open>
  Both channels are unbuffered, are written by goroutines that run concurrently, and are
  closed once the wait group has seen every goroutine finish. The \<^verbatim>\<open>range\<close> loop over such
  a channel therefore receives every value that was sent, each exactly once, in an order
  that the scheduler chooses. The log is written in the same way.
\<close>

definition chan_range :: "'a list \<Rightarrow> 'a list \<Rightarrow> bool" where
  "chan_range sent received \<longleftrightarrow> mset received = mset sent"

text \<open>
  The second loop runs over the values \<open>arrivals\<close> received from \<^verbatim>\<open>tagschan\<close> and, inside,
  over the tags of each: \<open>spawned arrivals\<close> lists the goroutines it starts, each with the
  index of the arrival during which it is started and its copy of \<^verbatim>\<open>tag\<close>.
\<close>

definition spawned :: "repotags list \<Rightarrow> (nat \<times> string) list" where
  "spawned arrivals =
     concat (map (\<lambda>k. map (\<lambda>tag. (k, tag)) (tags (arrivals ! k))) [0..<length arrivals])"

text \<open>
  The source copies \<^verbatim>\<open>currepo\<close> and \<^verbatim>\<open>tag\<close> for the closures
  (\<^verbatim>\<open>tag := tag\<close>, with the comment that this is necessary to use \<^verbatim>\<open>tag\<close> from inside
  the closure), but not \<^verbatim>\<open>currepotags\<close>: the closure refers to the loop variable itself.
  In the Go the comment is written for, that is one variable for the whole loop, assigned
  anew at each arrival, while the goroutines started so far may not have read it yet. A
  goroutine started during arrival \<open>k\<close> thus reads the arrival \<open>k1\<close> that is current when it
  builds the request, and the arrival \<open>k2\<close> that is current when it logs, with
  \<open>k \<le> k1 \<le> k2\<close>. The runs in which every goroutine reads its own arrival
  (\<open>k1 = k2 = k\<close>) are among them; where the loop variable is fresh at each iteration, they
  are the only ones.
\<close>

inductive img_goroutine ::
  "DockerRegistry \<Rightarrow> repotags list \<Rightarrow> nat \<times> string \<Rightarrow> string list \<times> DockerImage list \<Rightarrow> bool"
  for r arrivals where
  reads: "k \<le> k1 \<Longrightarrow> k1 \<le> k2 \<Longrightarrow> k2 < length arrivals \<Longrightarrow>
    img_goroutine r arrivals (k, tag)
      (img_worker r (repo (arrivals ! k1)) (repo (arrivals ! k2)) tag)"

subsection \<open>The collector loop\<close>

text \<open>
  The inner loop over \<^verbatim>\<open>filters\<close>: the first filter that answers false leaves the
  loop through \<^verbatim>\<open>continue Outer\<close>, and no later filter is called.
\<close>

fun passes :: "ImgFilter list \<Rightarrow> DockerImage \<Rightarrow> bool" where
  "passes [] img = True"
| "passes (f # filters) img = (if \<not> f img then False else passes filters img)"

text \<open>
  The outer loop \<^verbatim>\<open>for img := range imgchan\<close>, over the images in the order the channel
  hands them over; \<^verbatim>\<open>imgs\<close> is the slice built by \<^verbatim>\<open>append\<close>.
\<close>

fun collect :: "ImgFilter list \<Rightarrow> DockerImage list \<Rightarrow> DockerImage list \<Rightarrow> DockerImage list" where
  "collect filters [] imgs = imgs"
| "collect filters (img # received) imgs =
     (if passes filters img then collect filters received (imgs @ [img])
      else collect filters received imgs)"

subsection \<open>The function\<close>

text \<open>
  One run of \<^verbatim>\<open>fetch_images(r, repos, filters)\<close>: the tag goroutines of \<open>repos\<close> send
  on \<^verbatim>\<open>tagschan\<close>; the loop receives \<open>arrivals\<close> and starts the image goroutines, whose
  effects are \<open>fetched\<close>; the collector receives their images and filters them;
  \<^verbatim>\<open>sort.Sort(ByCreated(imgs))\<close> sorts. The outcome is the log written and the slice
  returned. The function has no error result and no path that panics.
\<close>

inductive fetch_images_run ::
  "DockerRegistry \<Rightarrow> string list \<Rightarrow> ImgFilter list \<Rightarrow> repotags list \<Rightarrow>
   (string list \<times> DockerImage list) list \<Rightarrow> string list \<times> DockerImage list \<Rightarrow> bool" where
  run: "chan_range (concat (map (\<lambda>currepo. snd (tag_worker r currepo)) repos)) arrivals \<Longrightarrow>
    list_all2 (img_goroutine r arrivals) (spawned arrivals) fetched \<Longrightarrow>
    chan_range (concat (map snd fetched)) received \<Longrightarrow>
    chan_range (concat (map (\<lambda>currepo. fst (tag_worker r currepo)) repos)
      @ concat (map fst fetched)) log \<Longrightarrow>
    sort_Sort (collect filters received []) imgs \<Longrightarrow>
    fetch_images_run r repos filters arrivals fetched (log, imgs)"

definition fetch_images ::
  "DockerRegistry \<Rightarrow> string list \<Rightarrow> ImgFilter list \<Rightarrow> string list \<times> DockerImage list \<Rightarrow> bool" where
  "fetch_images r repos filters res \<longleftrightarrow>
     (\<exists>arrivals fetched. fetch_images_run r repos filters arrivals fetched res)"

section \<open>\<^verbatim>\<open>fetch_images_older_than_n_latest\<close>\<close>

text \<open>
  The slice expression \<^verbatim>\<open>s[n:]\<close> panics unless \<open>0 \<le> n \<le> len(s)\<close>. \<open>n\<close> is a Go
  \<^verbatim>\<open>int\<close>; it is only compared, so an unbounded integer stands for it.
\<close>

datatype panic = SliceBoundsOutOfRange

definition slice_from :: "'a list \<Rightarrow> int \<Rightarrow> panic + 'a list" where
  "slice_from s n =
     (if 0 \<le> n \<and> n \<le> int (length s) then Inr (drop (nat n) s) else Inl SliceBoundsOutOfRange)"

text \<open>The body of the loop, after \<^verbatim>\<open>fetch_images\<close> has returned \<open>repoimgs\<close>.\<close>

definition exclude_latest_step ::
  "int \<Rightarrow> DockerImage list \<Rightarrow> DockerImage list \<Rightarrow> panic + DockerImage list" where
  "exclude_latest_step n allimgs repoimgs =
     (if int (length repoimgs) > n then
        (case slice_from repoimgs n of
           Inl p \<Rightarrow> Inl p
         | Inr rest \<Rightarrow> Inr (allimgs @ rest))
      else Inr allimgs)"

text \<open>
  The loop over \<open>repos\<close>, from the state (log so far, \<^verbatim>\<open>allimgs\<close>) to the outcome: the
  log and either the slice returned or the panic that ends the run.
\<close>

inductive older_loop ::
  "DockerRegistry \<Rightarrow> ImgFilter list \<Rightarrow> int \<Rightarrow> string list \<Rightarrow> string list \<times> DockerImage list \<Rightarrow>
   string list \<times> (panic + DockerImage list) \<Rightarrow> bool"
  for r filters n where
  loop_end: "older_loop r filters n [] (log, allimgs) (log, Inr allimgs)"
| loop_next: "fetch_images r [rp] filters (lg, repoimgs) \<Longrightarrow>
    exclude_latest_step n allimgs repoimgs = Inr allimgs' \<Longrightarrow>
    older_loop r filters n repos (log @ lg, allimgs') res \<Longrightarrow>
    older_loop r filters n (rp # repos) (log, allimgs) res"
| loop_panic: "fetch_images r [rp] filters (lg, repoimgs) \<Longrightarrow>
    exclude_latest_step n allimgs repoimgs = Inl p \<Longrightarrow>
    older_loop r filters n (rp # repos) (log, allimgs) (log @ lg, Inl p)"

definition fetch_images_older_than_n_latest ::
  "DockerRegistry \<Rightarrow> string list \<Rightarrow> ImgFilter list \<Rightarrow> int \<Rightarrow>
   string list \<times> (panic + DockerImage list) \<Rightarrow> bool" where
  "fetch_images_older_than_n_latest r repos filters n res \<longleftrightarrow>
     older_loop r filters n repos ([], []) res"

text \<open>
  The choice made by the \<^verbatim>\<open>images\<close> command between the two functions, on the value
  of \<^verbatim>\<open>c.Int("exclude-latest")\<close>.
\<close>

definition images_fetch ::
  "DockerRegistry \<Rightarrow> string list \<Rightarrow> ImgFilter list \<Rightarrow> int \<Rightarrow>
   string list \<times> (panic + DockerImage list) \<Rightarrow> bool" where
  "images_fetch r repos filters exclude_latest res \<longleftrightarrow>
     (if exclude_latest > 0 then fetch_images_older_than_n_latest r repos filters exclude_latest res
      else (\<exists>imgs. fetch_images r repos filters (fst res, imgs) \<and> snd res = Inr imgs))"

section \<open>Notions used in the statements\<close>

text \<open>Most recent first; images of equal creation time may stand in either order.\<close>

definition newest_first :: "DockerImage list \<Rightarrow> bool" where
  "newest_first s \<longleftrightarrow> sorted_wrt (\<lambda>a b. Created b \<le> Created a) s"

text \<open>
  What the image goroutines of one repository do when each requests its own repository:
  one effect for each tag the registry lists.
\<close>

definition repo_fetches :: "DockerRegistry \<Rightarrow> string \<Rightarrow> (string list \<times> DockerImage list) list" where
  "repo_fetches r rp =
     (case Tags r rp of Inr curtags \<Rightarrow> map (img_worker r rp rp) curtags | Inl err \<Rightarrow> [])"

text \<open>
  A registry to run the functions on. Repository \<open>a\<close> has one image; \<open>b\<close> lists three tags,
  of which \<open>z\<close> cannot be fetched; the two images of \<open>t\<close> have the same creation time; the
  tags of every other repository cannot be listed.
\<close>

definition example_image :: "string \<Rightarrow> string \<Rightarrow> Time \<Rightarrow> DockerImage" where
  "example_image n t c = \<lparr>Name = n, Tag = t, ContentDigest = ''sha256:'' @ n @ t, Created = c\<rparr>"

definition example_registry :: DockerRegistry where
  "example_registry = \<lparr>
     Tags = (\<lambda>rp.
       if rp = ''a'' then Inr [''x'']
       else if rp = ''b'' then Inr [''y'', ''z'', ''w'']
       else if rp = ''t'' then Inr [''p'', ''q'']
       else Inl (RegistryError ''404'')),
     ImageDetails = (\<lambda>image.
       if image = ''a:x'' then Inr (example_image ''a'' ''x'' 1)
       else if image = ''b:x'' then Inr (example_image ''b'' ''x'' 2)
       else if image = ''b:y'' then Inr (example_image ''b'' ''y'' 3)
       else if image = ''b:w'' then Inr (example_image ''b'' ''w'' 4)
       else if image = ''t:p'' then Inr (example_image ''t'' ''p'' 5)
       else if image = ''t:q'' then Inr (example_image ''t'' ''q'' 5)
       else Inl (RegistryError ''504''))\<rparr>"


section \<open>Lemmas\<close>

subsection \<open>The collector\<close>

lemma passes_iff: "passes filters img \<longleftrightarrow> (\<forall>f \<in> set filters. f img)"
  by (induction filters) auto

lemma collect_filter: "collect filters received imgs = imgs @ filter (passes filters) received"
  by (induction received arbitrary: imgs) auto


subsection \<open>Sorting\<close>

text \<open>
  \<^verbatim>\<open>Less\<close> is a strict weak order, as \<^verbatim>\<open>sort.Sort\<close> requires. The calls of \<^verbatim>\<open>Swap\<close> reach
  exactly the rearrangements of the slice, so the slices \<^verbatim>\<open>sort.Sort\<close> may return are the
  rearrangements that are most recent first.
\<close>

lemma ByCreated_Less_strict_weak_order:
  "\<not> ByCreated_Less s i i"
  "ByCreated_Less s i j \<Longrightarrow> ByCreated_Less s j k \<Longrightarrow> ByCreated_Less s i k"
  "\<not> ByCreated_Less s i j \<Longrightarrow> \<not> ByCreated_Less s j k \<Longrightarrow> \<not> ByCreated_Less s i k"
  by (simp_all add: ByCreated_Less_def After_def)

lemma swapped_mset: "swapped s s' \<Longrightarrow> mset s' = mset s"
proof (induction rule: swapped.induct)
  case (swapped_refl s)
  show ?case by simp
next
  case (swapped_step i s j s')
  then show ?case
    using mset_swap [of j s i] by (simp add: ByCreated_Len_def ByCreated_Swap_def)
qed

lemma swapped_trans: "swapped s t \<Longrightarrow> swapped t u \<Longrightarrow> swapped s u"
  by (induction rule: swapped.induct) (auto intro: swapped.intros)

lemma swapped_Cons: "swapped s t \<Longrightarrow> swapped (x # s) (x # t)"
proof (induction rule: swapped.induct)
  case (swapped_refl s)
  show ?case by (rule swapped.swapped_refl)
next
  case (swapped_step i s j s')
  have "ByCreated_Swap (x # s) (Suc i) (Suc j) = x # ByCreated_Swap s i j"
    by (simp add: ByCreated_Swap_def)
  with swapped_step show ?case
    using swapped.swapped_step [of "Suc i" "x # s" "Suc j" "x # s'"]
    by (simp add: ByCreated_Len_def)
qed

lemma swapped_to_front:
  assumes "k < length s"
  shows "\<exists>t. swapped s (s ! k # t)"
proof (cases s)
  case Nil
  with assms show ?thesis by simp
next
  case (Cons a as)
  have "ByCreated_Swap s 0 k = s ! k # tl (s[k := a])"
    using assms Cons by (cases k) (simp_all add: ByCreated_Swap_def)
  moreover have "swapped s (ByCreated_Swap s 0 k)"
    using assms Cons swapped_step [of 0 s k, OF _ _ swapped_refl]
    by (simp add: ByCreated_Len_def)
  ultimately show ?thesis by metis
qed

lemma mset_swapped: "mset s' = mset s \<Longrightarrow> swapped s s'"
proof (induction s' arbitrary: s)
  case Nil
  then show ?case by (simp add: swapped_refl)
next
  case (Cons y ys)
  then have "y \<in> set s"
    by (metis list.set_intros(1) mset_eq_setD)
  then obtain k where k: "k < length s" "s ! k = y"
    by (auto simp: in_set_conv_nth)
  then obtain t where t: "swapped s (y # t)"
    using swapped_to_front by blast
  then have "mset (y # t) = mset (y # ys)"
    using Cons.prems swapped_mset by metis
  then have "swapped t ys"
    using Cons.IH by simp
  then show ?case
    using t swapped_Cons swapped_trans by blast
qed

lemma swapped_iff: "swapped s s' \<longleftrightarrow> mset s' = mset s"
  using swapped_mset mset_swapped by blast

lemma sort_Sort_iff: "sort_Sort s s' \<longleftrightarrow> mset s' = mset s \<and> newest_first s'"
  by (auto simp: sort_Sort_def swapped_iff newest_first_def sorted_wrt_iff_nth_less
      ByCreated_Len_def ByCreated_Less_def After_def not_less)

lemma sort_Sort_total: "\<exists>s'. sort_Sort s s'"
proof -
  have "sorted_wrt (\<lambda>a b. Created b \<le> Created a) (rev (sort_key Created s))"
    using sorted_sort_key [of Created s]
    by (simp add: sorted_wrt_rev sorted_map)
  then have "sort_Sort s (rev (sort_key Created s))"
    by (simp add: sort_Sort_iff newest_first_def)
  then show ?thesis ..
qed

lemma newest_first_keys:
  assumes "mset xs = mset ys" "newest_first xs" "newest_first ys"
  shows "map Created xs = map Created ys"
proof -
  have sorted: "sorted (rev (map Created zs))" if "newest_first zs" for zs
    using that by (simp add: newest_first_def sorted_wrt_rev sorted_wrt_map)
  have "mset (rev (map Created xs)) = mset (rev (map Created ys))"
    using assms(1) by (metis mset_map mset_rev)
  then have "rev (map Created xs) = rev (map Created ys)"
    using sorted [OF assms(2)] sorted [OF assms(3)]
    by (metis properties_for_sort)
  then show ?thesis
    by simp
qed

lemma distinct_keys_unique:
  "distinct (map Created xs) \<Longrightarrow> mset xs = mset ys \<Longrightarrow> map Created xs = map Created ys \<Longrightarrow> xs = ys"
proof (induction xs arbitrary: ys)
  case Nil
  then show ?case by simp
next
  case (Cons x xs)
  from Cons.prems(3) obtain y ys' where ys: "ys = y # ys'" and key: "Created x = Created y"
    and keys: "map Created xs = map Created ys'"
    by (cases ys) auto
  have "y \<in> set (x # xs)"
    using Cons.prems(2) ys by (metis list.set_intros(1) mset_eq_setD)
  moreover have "y \<notin> set xs"
    using Cons.prems(1) key by auto
  ultimately have y: "y = x"
    by simp
  with Cons.prems ys have "mset xs = mset ys'"
    by simp
  with Cons.IH [of ys'] Cons.prems(1) keys y ys show ?case
    by simp
qed


subsection \<open>Runs of \<^verbatim>\<open>fetch_images\<close>\<close>

text \<open>
  A run in terms of multisets: the arrivals are the tag lists sent, the log is the lines
  of the image goroutines, the slice returned is a rearrangement, most recent first, of the
  images sent that pass the filters. Every input has a run.
\<close>

lemma tag_worker_log: "fst (tag_worker r currepo) = []"
  by (simp add: tag_worker_def split: sum.splits)

lemma tag_stage_log: "concat (map (\<lambda>currepo. fst (tag_worker r currepo)) repos) = []"
  by (simp add: tag_worker_log)

lemma run_iff:
  "fetch_images_run r repos filters arrivals fetched (log, imgs) \<longleftrightarrow>
     mset arrivals = mset (concat (map (\<lambda>currepo. snd (tag_worker r currepo)) repos))
     \<and> list_all2 (img_goroutine r arrivals) (spawned arrivals) fetched
     \<and> mset log = mset (concat (map fst fetched))
     \<and> mset imgs = mset (filter (passes filters) (concat (map snd fetched)))
     \<and> newest_first imgs"
  (is "?L \<longleftrightarrow> ?R")
proof
  assume ?L
  then show ?R
    by (cases rule: fetch_images_run.cases)
       (auto simp: chan_range_def sort_Sort_iff collect_filter tag_stage_log)
next
  assume R: ?R
  have "chan_range (concat (map snd fetched)) (concat (map snd fetched))"
    by (simp add: chan_range_def)
  moreover have "sort_Sort (collect filters (concat (map snd fetched)) []) imgs"
    using R by (simp add: sort_Sort_iff collect_filter)
  ultimately show ?L
    using R by (intro fetch_images_run.run) (simp_all add: chan_range_def tag_stage_log)
qed





lemma failed_listing_skipped:
  assumes "Tags r rp = Inl err"
  shows "fetch_images r (rp # repos) filters res \<longleftrightarrow> fetch_images r repos filters res"
proof -
  have "snd (tag_worker r rp) = []"
    using assms by (simp add: tag_worker_def)
  then show ?thesis
    by (cases res) (simp add: fetch_images_def run_iff)
qed

lemma fetch_images_sorted:
  "fetch_images r repos filters (log, imgs) \<Longrightarrow> newest_first imgs"
  by (auto simp: fetch_images_def run_iff)


subsection \<open>Runs on one repository\<close>

text \<open>
  With one repository there is at most one arrival, \<^verbatim>\<open>currepotags\<close> is assigned once, and
  every goroutine requests its own repository.
\<close>

lemma spawned_single: "spawned [rt] = map (\<lambda>tag. (0, tag)) (tags rt)"
  by (simp add: spawned_def)

lemma img_goroutine_single:
  "img_goroutine r [rt] (k, tag) w \<longleftrightarrow> k = 0 \<and> w = img_worker r (repo rt) (repo rt) tag"
  by (auto simp: img_goroutine.simps)

lemma fetched_single:
  "list_all2 (img_goroutine r [rt]) (spawned [rt]) fetched \<longleftrightarrow>
     fetched = map (img_worker r (repo rt) (repo rt)) (tags rt)"
  by (simp add: spawned_single list_all2_map1 img_goroutine_single list_all2_conv_all_nth
      list_eq_iff_nth_eq) auto

lemma fetched_single_repo:
  assumes "mset arrivals = mset (snd (tag_worker r rp))"
  shows "list_all2 (img_goroutine r arrivals) (spawned arrivals) fetched \<longleftrightarrow>
     fetched = repo_fetches r rp"
proof (cases "Tags r rp")
  case (Inl err)
  with assms have "arrivals = []"
    by (simp add: tag_worker_def)
  with Inl show ?thesis
    by (simp add: spawned_def repo_fetches_def)
next
  case (Inr curtags)
  with assms have "arrivals = [\<lparr>repo = rp, tags = curtags\<rparr>]"
    by (simp add: tag_worker_def)
  with Inr show ?thesis
    by (simp add: fetched_single repo_fetches_def)
qed

lemma fetch_images_single:
  "fetch_images r [rp] filters (log, imgs) \<longleftrightarrow>
     mset log = mset (concat (map fst (repo_fetches r rp)))
     \<and> mset imgs = mset (filter (passes filters) (concat (map snd (repo_fetches r rp))))
     \<and> newest_first imgs"
  (is "?L \<longleftrightarrow> ?R")
proof
  assume ?L
  then obtain arrivals fetched where
    run: "fetch_images_run r [rp] filters arrivals fetched (log, imgs)"
    by (auto simp: fetch_images_def)
  then have "mset arrivals = mset (snd (tag_worker r rp))"
    by (simp add: run_iff)
  with run have "fetched = repo_fetches r rp"
    using fetched_single_repo by (simp add: run_iff)
  with run show ?R
    by (simp add: run_iff)
next
  assume R: ?R
  have "mset (snd (tag_worker r rp)) = mset (snd (tag_worker r rp))" ..
  then have "list_all2 (img_goroutine r (snd (tag_worker r rp))) (spawned (snd (tag_worker r rp)))
      (repo_fetches r rp)"
    using fetched_single_repo by blast
  with R have "fetch_images_run r [rp] filters (snd (tag_worker r rp)) (repo_fetches r rp) (log, imgs)"
    by (simp add: run_iff)
  then show ?L
    by (auto simp: fetch_images_def)
qed

lemma fetch_images_single_total: "\<exists>log imgs. fetch_images r [rp] filters (log, imgs)"
proof -
  obtain imgs where "sort_Sort (filter (passes filters) (concat (map snd (repo_fetches r rp)))) imgs"
    using sort_Sort_total by blast
  then have "fetch_images r [rp] filters (concat (map fst (repo_fetches r rp)), imgs)"
    by (simp add: fetch_images_single sort_Sort_iff)
  then show ?thesis by blast
qed

lemma single_repository_runs_agree:
  assumes "fetch_images r [rp] filters (log1, imgs1)" "fetch_images r [rp] filters (log2, imgs2)"
  shows "mset imgs1 = mset imgs2" "map Created imgs1 = map Created imgs2"
    "distinct (map Created imgs1) \<Longrightarrow> imgs1 = imgs2"
proof -
  show m: "mset imgs1 = mset imgs2"
    using assms by (simp add: fetch_images_single)
  show k: "map Created imgs1 = map Created imgs2"
    using assms m by (intro newest_first_keys) (simp_all add: fetch_images_single)
  show "imgs1 = imgs2" if "distinct (map Created imgs1)"
    using that m k by (rule distinct_keys_unique)
qed

lemma per_repository_runs_exist:
  "\<exists>runs. list_all2 (\<lambda>rp run. fetch_images r [rp] filters run) repos runs"
proof (induction repos)
  case Nil
  show ?case by simp
next
  case (Cons rp repos)
  then obtain runs where "list_all2 (\<lambda>rp run. fetch_images r [rp] filters run) repos runs"
    by blast
  moreover obtain lg repoimgs where "fetch_images r [rp] filters (lg, repoimgs)"
    using fetch_images_single_total by blast
  ultimately have "list_all2 (\<lambda>rp run. fetch_images r [rp] filters run) (rp # repos)
      ((lg, repoimgs) # runs)"
    by simp
  then show ?case ..
qed


subsection \<open>The loop of \<^verbatim>\<open>fetch_images_older_than_n_latest\<close>\<close>

lemma step_nonneg:
  "0 \<le> n \<Longrightarrow> exclude_latest_step n allimgs repoimgs =
     Inr (allimgs @ (if int (length repoimgs) > n then drop (nat n) repoimgs else []))"
  by (simp add: exclude_latest_step_def slice_from_def)

lemma step_neg: "n < 0 \<Longrightarrow> exclude_latest_step n allimgs repoimgs = Inl SliceBoundsOutOfRange"
  by (simp add: exclude_latest_step_def slice_from_def)

lemma older_loop_nonneg:
  assumes "0 \<le> n"
  shows "older_loop r filters n repos (log0, allimgs) (log, res) \<longleftrightarrow>
     (\<exists>runs. list_all2 (\<lambda>rp run. fetch_images r [rp] filters run) repos runs
        \<and> log = log0 @ concat (map fst runs)
        \<and> res = Inr (allimgs @ concat (map (\<lambda>run. if int (length (snd run)) > n
                         then drop (nat n) (snd run) else []) runs)))"
proof (induction repos arbitrary: log0 allimgs)
  case Nil
  show ?case
    by (auto simp: older_loop.simps [of r filters n "[]"])
next
  case (Cons rp repos)
  let ?rem = "\<lambda>run :: string list \<times> DockerImage list.
    if int (length (snd run)) > n then drop (nat n) (snd run) else []"
  have unfold: "older_loop r filters n (rp # repos) (log0, allimgs) (log, res) \<longleftrightarrow>
      (\<exists>lg repoimgs. fetch_images r [rp] filters (lg, repoimgs)
         \<and> older_loop r filters n repos (log0 @ lg, allimgs @ ?rem (lg, repoimgs)) (log, res))"
    by (subst older_loop.simps) (auto simp: step_nonneg [OF assms])
  show ?case
  proof
    assume "older_loop r filters n (rp # repos) (log0, allimgs) (log, res)"
    then obtain lg repoimgs runs where
      first: "fetch_images r [rp] filters (lg, repoimgs)" and
      rest: "list_all2 (\<lambda>rp run. fetch_images r [rp] filters run) repos runs" and
      log: "log = (log0 @ lg) @ concat (map fst runs)" and
      res: "res = Inr ((allimgs @ ?rem (lg, repoimgs)) @ concat (map ?rem runs))"
      unfolding unfold Cons.IH by blast
    show "\<exists>runs. list_all2 (\<lambda>rp run. fetch_images r [rp] filters run) (rp # repos) runs
        \<and> log = log0 @ concat (map fst runs)
        \<and> res = Inr (allimgs @ concat (map ?rem runs))"
      using first rest log res by (intro exI [of _ "(lg, repoimgs) # runs"]) simp
  next
    assume "\<exists>runs. list_all2 (\<lambda>rp run. fetch_images r [rp] filters run) (rp # repos) runs
        \<and> log = log0 @ concat (map fst runs)
        \<and> res = Inr (allimgs @ concat (map ?rem runs))"
    then obtain run runs where
      first: "fetch_images r [rp] filters run" and
      rest: "list_all2 (\<lambda>rp run. fetch_images r [rp] filters run) repos runs" and
      log: "log = log0 @ concat (map fst (run # runs))" and
      res: "res = Inr (allimgs @ concat (map ?rem (run # runs)))"
      by (auto simp: list_all2_Cons1)
    have "older_loop r filters n repos (log0 @ fst run, allimgs @ ?rem (fst run, snd run)) (log, res)"
      unfolding Cons.IH using rest log res by (intro exI [of _ runs]) simp
    with first show "older_loop r filters n (rp # repos) (log0, allimgs) (log, res)"
      unfolding unfold by (intro exI [of _ "fst run"] exI [of _ "snd run"]) simp
  qed
qed

lemma older_loop_neg:
  assumes "n < 0"
  shows "older_loop r filters n (rp # repos) (log0, allimgs) (log, res) \<longleftrightarrow>
     (\<exists>lg repoimgs. fetch_images r [rp] filters (lg, repoimgs) \<and> log = log0 @ lg
        \<and> res = Inl SliceBoundsOutOfRange)"
  by (subst older_loop.simps) (auto simp: step_neg [OF assms])

lemma older_zero_panic_free:
  "0 \<le> n \<Longrightarrow> fetch_images_older_than_n_latest r repos filters n (log, res) \<Longrightarrow> \<exists>imgs. res = Inr imgs"
  by (auto simp: fetch_images_older_than_n_latest_def older_loop_nonneg)


subsection \<open>Runs on the example registry\<close>

lemma example_ties:
  "fetch_images example_registry [''t''] []
     ([], [example_image ''t'' ''p'' 5, example_image ''t'' ''q'' 5])
   \<and> fetch_images example_registry [''t''] []
     ([], [example_image ''t'' ''q'' 5, example_image ''t'' ''p'' 5])"
  by (simp add: fetch_images_single repo_fetches_def img_worker_def newest_first_def
      example_registry_def example_image_def)

lemma example_run_t:
  "fetch_images example_registry [''t''] []
     ([], [example_image ''t'' ''q'' 5, example_image ''t'' ''p'' 5])"
  using example_ties by simp

lemma example_run_a:
  "fetch_images example_registry [''a''] [] ([], [example_image ''a'' ''x'' 1])"
  by (simp add: fetch_images_single repo_fetches_def img_worker_def newest_first_def
      example_registry_def example_image_def)

lemma example_run_c:
  "fetch_images example_registry [''c''] [] ([], [])"
  by (simp add: fetch_images_single repo_fetches_def newest_first_def example_registry_def)

lemma example_run_b:
  "fetch_images_run example_registry [''b''] [] [\<lparr>repo = ''b'', tags = [''y'', ''z'', ''w'']\<rparr>]
     [([], [example_image ''b'' ''y'' 3]), ([''Unable to get image (b:z): 504''], []),
      ([], [example_image ''b'' ''w'' 4])]
     ([''Unable to get image (b:z): 504''], [example_image ''b'' ''w'' 4, example_image ''b'' ''y'' 3])"
  by (simp add: run_iff fetched_single tag_worker_def img_worker_def newest_first_def
      example_registry_def example_image_def unable_to_get_image_def)

lemma example_run_b_single:
  "fetch_images example_registry [''b''] []
     ([''Unable to get image (b:z): 504''], [example_image ''b'' ''w'' 4, example_image ''b'' ''y'' 3])"
  using example_run_b by (auto simp: fetch_images_def)


lemma example_spawned_a_b:
  "spawned [\<lparr>repo = ''a'', tags = [''x'']\<rparr>, \<lparr>repo = ''b'', tags = [''y'', ''z'', ''w'']\<rparr>]
     = [(0, ''x''), (1, ''y''), (1, ''z''), (1, ''w'')]"
  by (simp add: spawned_def upt_rec)

lemma example_own_reads_a_b:
  "list_all2 (img_goroutine example_registry
       [\<lparr>repo = ''a'', tags = [''x'']\<rparr>, \<lparr>repo = ''b'', tags = [''y'', ''z'', ''w'']\<rparr>])
     [(0, ''x''), (1, ''y''), (1, ''z''), (1, ''w'')]
     [([], [example_image ''a'' ''x'' 1]), ([], [example_image ''b'' ''y'' 3]),
      ([''Unable to get image (b:z): 504''], []), ([], [example_image ''b'' ''w'' 4])]"
proof -
  let ?arrivals = "[\<lparr>repo = ''a'', tags = [''x'']\<rparr>, \<lparr>repo = ''b'', tags = [''y'', ''z'', ''w'']\<rparr>]"
  have "img_goroutine example_registry ?arrivals (0, ''x'') ([], [example_image ''a'' ''x'' 1])"
    using reads [of 0 0 0 ?arrivals example_registry "''x''"]
    by (simp add: img_worker_def example_registry_def)
  moreover have "img_goroutine example_registry ?arrivals (1, ''y'') ([], [example_image ''b'' ''y'' 3])"
    using reads [of 1 1 1 ?arrivals example_registry "''y''"]
    by (simp add: img_worker_def example_registry_def)
  moreover have "img_goroutine example_registry ?arrivals (1, ''z'')
      ([''Unable to get image (b:z): 504''], [])"
    using reads [of 1 1 1 ?arrivals example_registry "''z''"]
    by (simp add: img_worker_def example_registry_def unable_to_get_image_def)
  moreover have "img_goroutine example_registry ?arrivals (1, ''w'') ([], [example_image ''b'' ''w'' 4])"
    using reads [of 1 1 1 ?arrivals example_registry "''w''"]
    by (simp add: img_worker_def example_registry_def)
  ultimately show ?thesis
    by simp
qed

lemma example_late_read_a_b:
  "list_all2 (img_goroutine example_registry
       [\<lparr>repo = ''a'', tags = [''x'']\<rparr>, \<lparr>repo = ''b'', tags = [''y'', ''z'', ''w'']\<rparr>])
     [(0, ''x''), (1, ''y''), (1, ''z''), (1, ''w'')]
     [([], [example_image ''b'' ''x'' 2]), ([], [example_image ''b'' ''y'' 3]),
      ([''Unable to get image (b:z): 504''], []), ([], [example_image ''b'' ''w'' 4])]"
proof -
  let ?arrivals = "[\<lparr>repo = ''a'', tags = [''x'']\<rparr>, \<lparr>repo = ''b'', tags = [''y'', ''z'', ''w'']\<rparr>]"
  have "img_goroutine example_registry ?arrivals (0, ''x'') ([], [example_image ''b'' ''x'' 2])"
    using reads [of 0 1 1 ?arrivals example_registry "''x''"]
    by (simp add: img_worker_def example_registry_def)
  then show ?thesis
    using example_own_reads_a_b by simp
qed

section \<open>The claims\<close>

text \<open>
  C1 (as amended, for \<open>n \<ge> 0\<close>): \<^verbatim>\<open>fetch_images_older_than_n_latest\<close> runs
  \<^verbatim>\<open>fetch_images\<close> once for each repository, on that repository alone. A repository whose
  sorted, filtered result has more than \<open>n\<close> entries contributes that result without its
  first \<open>n\<close> entries, still most recent first; any other repository contributes nothing.
  The outcomes are exactly the concatenations of these remainders in the order of the
  repositories, and such an outcome exists; nothing sorts across repositories. For negative
  \<open>n\<close> the function does not return a sequence: it is evaluated at \<open>n = - 1\<close> below.
\<close>

theorem exclude_latest_per_repository:
  "0 \<le> n \<Longrightarrow>
   (\<exists>log' imgs. fetch_images_older_than_n_latest r repos filters n (log', Inr imgs))
   \<and> (fetch_images_older_than_n_latest r repos filters n (log, res) \<longleftrightarrow>
     (\<exists>runs. list_all2 (\<lambda>rp run. fetch_images r [rp] filters run) repos runs
        \<and> log = concat (map fst runs)
        \<and> res = Inr (concat (map (\<lambda>run. if int (length (snd run)) > n
                         then drop (nat n) (snd run) else []) runs))
        \<and> (\<forall>run \<in> set runs. sorted_wrt (\<lambda>a b. Created b \<le> Created a) (drop (nat n) (snd run)))))"
proof -
  assume n: "0 \<le> n"
  obtain runs0 where "list_all2 (\<lambda>rp run. fetch_images r [rp] filters run) repos runs0"
    using per_repository_runs_exist by blast
  then have total: "\<exists>log' imgs. fetch_images_older_than_n_latest r repos filters n (log', Inr imgs)"
    unfolding fetch_images_older_than_n_latest_def older_loop_nonneg [OF n] by auto
  have sorted: "\<forall>run \<in> set runs. sorted_wrt (\<lambda>a b. Created b \<le> Created a) (drop (nat n) (snd run))"
    if "list_all2 (\<lambda>rp run. fetch_images r [rp] filters run) repos runs" for runs
  proof
    fix run
    assume "run \<in> set runs"
    then obtain i where "i < length runs" "run = runs ! i"
      by (auto simp: in_set_conv_nth)
    with that have "fetch_images r [repos ! i] filters (fst run, snd run)"
      by (simp add: list_all2_conv_all_nth)
    then have "newest_first (snd run)"
      by (rule fetch_images_sorted)
    then show "sorted_wrt (\<lambda>a b. Created b \<le> Created a) (drop (nat n) (snd run))"
      unfolding newest_first_def by (rule sorted_wrt_drop)
  qed
  have "fetch_images_older_than_n_latest r repos filters n (log, res) \<longleftrightarrow>
     (\<exists>runs. list_all2 (\<lambda>rp run. fetch_images r [rp] filters run) repos runs
        \<and> log = concat (map fst runs)
        \<and> res = Inr (concat (map (\<lambda>run. if int (length (snd run)) > n
                         then drop (nat n) (snd run) else []) runs))
        \<and> (\<forall>run \<in> set runs. sorted_wrt (\<lambda>a b. Created b \<le> Created a) (drop (nat n) (snd run))))"
    unfolding fetch_images_older_than_n_latest_def older_loop_nonneg [OF n]
    using sorted by auto
  with total show ?thesis
    by blast
qed

theorem exclude_latest_per_repository_witness:
  "(0::int) \<le> 1
   \<and> fetch_images_older_than_n_latest example_registry [''a'', ''b'', ''t''] [] 1
       ([''Unable to get image (b:z): 504''], Inr [example_image ''b'' ''y'' 3, example_image ''t'' ''p'' 5])"
proof -
  let ?runs = "[([], [example_image ''a'' ''x'' 1]),
    ([''Unable to get image (b:z): 504''], [example_image ''b'' ''w'' 4, example_image ''b'' ''y'' 3]),
    ([], [example_image ''t'' ''q'' 5, example_image ''t'' ''p'' 5])]"
  have n: "(0::int) \<le> 1"
    by simp
  have "list_all2 (\<lambda>rp run. fetch_images example_registry [rp] [] run) [''a'', ''b'', ''t''] ?runs"
    using example_run_a example_run_b_single example_run_t by simp
  then have "\<exists>runs. list_all2 (\<lambda>rp run. fetch_images example_registry [rp] [] run) [''a'', ''b'', ''t''] runs
        \<and> [''Unable to get image (b:z): 504''] = concat (map fst runs)
        \<and> (Inr [example_image ''b'' ''y'' 3, example_image ''t'' ''p'' 5] :: panic + DockerImage list)
            = Inr (concat (map (\<lambda>run. if int (length (snd run)) > 1
                         then drop (nat 1) (snd run) else []) runs))
        \<and> (\<forall>run \<in> set runs. sorted_wrt (\<lambda>a b. Created b \<le> Created a) (drop (nat 1) (snd run)))"
    by (intro exI [of _ ?runs]) simp
  then show ?thesis
    using n exclude_latest_per_repository [OF n, of example_registry "[''a'', ''b'', ''t'']" "[]"
      "[''Unable to get image (b:z): 504'']"
      "Inr [example_image ''b'' ''y'' 3, example_image ''t'' ''p'' 5]"]
    by blast
qed

theorem exclude_latest_negative_counterexample:
  "\<not> (\<exists>log imgs. fetch_images_older_than_n_latest example_registry [''a''] [] (- 1) (log, Inr imgs))
   \<and> fetch_images_older_than_n_latest example_registry [''a''] [] (- 1) ([], Inl SliceBoundsOutOfRange)"
proof -
  have neg: "(- 1 :: int) < 0"
    by simp
  show ?thesis
    unfolding fetch_images_older_than_n_latest_def older_loop_neg [OF neg]
    using example_run_a by auto
qed

text \<open>
  C2: the collector keeps an image exactly when every filter of the chain answers true for it.
  The collected sequence is the received sequence restricted to those images, so the collected
  set is the set of received images that all filters accept, and the empty chain keeps
  every image.
\<close>

theorem collector_keeps_exactly_accepted:
  "collect filters received [] = filter (\<lambda>img. \<forall>f \<in> set filters. f img) received
   \<and> set (collect filters received []) = {img \<in> set received. \<forall>f \<in> set filters. f img}
   \<and> (passes filters img \<longleftrightarrow> (\<forall>f \<in> set filters. f img))
   \<and> collect [] received [] = received"
proof -
  have eq: "passes filters = (\<lambda>img. \<forall>f \<in> set filters. f img)"
    by (rule ext) (rule passes_iff)
  have "collect filters received [] = filter (\<lambda>img. \<forall>f \<in> set filters. f img) received"
    by (simp add: collect_filter eq)
  moreover from this have
    "set (collect filters received []) = {img \<in> set received. \<forall>f \<in> set filters. f img}"
    by simp
  moreover have "collect [] received [] = received"
    by (simp add: collect_filter)
  ultimately show ?thesis
    by (simp add: passes_iff)
qed

theorem collector_keeps_exactly_accepted_witness:
  "collect [older_than 5, (\<lambda>img. Tag img \<noteq> ''rc2'')]
     [\<lparr>Name = ''web'', Tag = ''rc2'', ContentDigest = ''d1'', Created = 1\<rparr>,
      \<lparr>Name = ''web'', Tag = ''dev'', ContentDigest = ''d2'', Created = 9\<rparr>,
      \<lparr>Name = ''web'', Tag = ''old'', ContentDigest = ''d3'', Created = 2\<rparr>] []
   = [\<lparr>Name = ''web'', Tag = ''old'', ContentDigest = ''d3'', Created = 2\<rparr>]"
  using collector_keeps_exactly_accepted
    [of "[older_than 5, (\<lambda>img. Tag img \<noteq> ''rc2'')]"
        "[\<lparr>Name = ''web'', Tag = ''rc2'', ContentDigest = ''d1'', Created = 1\<rparr>,
          \<lparr>Name = ''web'', Tag = ''dev'', ContentDigest = ''d2'', Created = 9\<rparr>,
          \<lparr>Name = ''web'', Tag = ''old'', ContentDigest = ''d3'', Created = 2\<rparr>]"]
  by (simp add: older_than_def Before_def)





text \<open>
  C6 (as amended): with \<open>n = 0\<close> the exclusion is not rejected.
  \<^verbatim>\<open>fetch_images_older_than_n_latest\<close> then returns, for each repository in turn, its whole
  sorted and filtered result; and the \<^verbatim>\<open>images\<close> command, which calls it exactly when
  \<^verbatim>\<open>exclude-latest\<close> is positive, runs plain \<^verbatim>\<open>fetch_images\<close> for the value 0. A repository
  whose surviving images number at most \<open>n\<close> contributes nothing: the step of the loop leaves
  \<^verbatim>\<open>allimgs\<close> as it is, and on such a repository alone the function returns the empty
  sequence.
\<close>

theorem exclude_latest_zero_is_accepted:
  "(fetch_images_older_than_n_latest r repos filters 0 (log, res) \<longleftrightarrow>
      (\<exists>runs. list_all2 (\<lambda>rp run. fetch_images r [rp] filters run) repos runs
         \<and> log = concat (map fst runs) \<and> res = Inr (concat (map snd runs))))
   \<and> (images_fetch r repos filters 0 (log, res) \<longleftrightarrow>
        (\<exists>imgs. fetch_images r repos filters (log, imgs) \<and> res = Inr imgs))
   \<and> (0 < n \<longrightarrow> (images_fetch r repos filters n (log, res) \<longleftrightarrow>
        fetch_images_older_than_n_latest r repos filters n (log, res)))
   \<and> (int (length repoimgs) \<le> n \<longrightarrow> exclude_latest_step n allimgs repoimgs = Inr allimgs)
   \<and> (int (length (filter (passes filters) (concat (map snd (repo_fetches r rp))))) \<le> n
        \<and> fetch_images_older_than_n_latest r [rp] filters n (log, res) \<longrightarrow> res = Inr [])"
proof (intro conjI impI)
  have "(\<lambda>run :: string list \<times> DockerImage list.
      if int (length (snd run)) > 0 then drop (nat 0) (snd run) else []) = snd"
    by (rule ext) simp
  then show "fetch_images_older_than_n_latest r repos filters 0 (log, res) \<longleftrightarrow>
      (\<exists>runs. list_all2 (\<lambda>rp run. fetch_images r [rp] filters run) repos runs
         \<and> log = concat (map fst runs) \<and> res = Inr (concat (map snd runs)))"
    unfolding fetch_images_older_than_n_latest_def by (simp add: older_loop_nonneg)
next
  show "images_fetch r repos filters 0 (log, res) \<longleftrightarrow>
      (\<exists>imgs. fetch_images r repos filters (log, imgs) \<and> res = Inr imgs)"
    by (simp add: images_fetch_def)
next
  assume "0 < n"
  then show "images_fetch r repos filters n (log, res) \<longleftrightarrow>
      fetch_images_older_than_n_latest r repos filters n (log, res)"
    by (simp add: images_fetch_def)
next
  assume "int (length repoimgs) \<le> n"
  then show "exclude_latest_step n allimgs repoimgs = Inr allimgs"
    by (simp add: exclude_latest_step_def)
next
  assume a: "int (length (filter (passes filters) (concat (map snd (repo_fetches r rp))))) \<le> n
      \<and> fetch_images_older_than_n_latest r [rp] filters n (log, res)"
  then have n: "0 \<le> n"
    by linarith
  from a obtain run where run: "fetch_images r [rp] filters run" and
    res: "res = Inr (if int (length (snd run)) > n then drop (nat n) (snd run) else [])"
    unfolding fetch_images_older_than_n_latest_def older_loop_nonneg [OF n]
    by (auto simp: list_all2_Cons1)
  from run have "mset (snd run) = mset (filter (passes filters) (concat (map snd (repo_fetches r rp))))"
    using fetch_images_single [of r rp filters "fst run" "snd run"] by simp
  then have "length (snd run) = length (filter (passes filters) (concat (map snd (repo_fetches r rp))))"
    by (rule mset_eq_length)
  with a res show "res = Inr []"
    by simp
qed

theorem exclude_latest_zero_is_accepted_witness:
  "fetch_images_older_than_n_latest example_registry [''a'', ''b''] [] 0
     ([''Unable to get image (b:z): 504''],
      Inr [example_image ''a'' ''x'' 1, example_image ''b'' ''w'' 4, example_image ''b'' ''y'' 3])
   \<and> int (length [example_image ''a'' ''x'' 1]) \<le> 1
   \<and> exclude_latest_step 1 [] [example_image ''a'' ''x'' 1] = Inr []"
proof -
  let ?runs = "[([], [example_image ''a'' ''x'' 1]),
    ([''Unable to get image (b:z): 504''], [example_image ''b'' ''w'' 4, example_image ''b'' ''y'' 3])]"
  have "list_all2 (\<lambda>rp run. fetch_images example_registry [rp] [] run) [''a'', ''b''] ?runs"
    using example_run_a example_run_b_single by simp
  then have "\<exists>runs. list_all2 (\<lambda>rp run. fetch_images example_registry [rp] [] run) [''a'', ''b''] runs
      \<and> [''Unable to get image (b:z): 504''] = concat (map fst runs)
      \<and> (Inr [example_image ''a'' ''x'' 1, example_image ''b'' ''w'' 4, example_image ''b'' ''y'' 3]
           :: panic + DockerImage list) = Inr (concat (map snd runs))"
    by (intro exI [of _ ?runs]) simp
  moreover have "int (length [example_image ''a'' ''x'' 1]) \<le> 1"
    by simp
  ultimately show ?thesis
    using exclude_latest_zero_is_accepted [where r = example_registry and repos = "[''a'', ''b'']"
      and filters = "[]" and log = "[''Unable to get image (b:z): 504'']"
      and res = "Inr [example_image ''a'' ''x'' 1, example_image ''b'' ''w'' 4, example_image ''b'' ''y'' 3]"
      and repoimgs = "[example_image ''a'' ''x'' 1]" and n = 1 and allimgs = "[]" and rp = "''a''"]
    by blast
qed

theorem exclude_latest_zero_counterexample:
  "fetch_images_older_than_n_latest example_registry [''a''] [] 0
     ([], Inr [example_image ''a'' ''x'' 1])
   \<and> images_fetch example_registry [''a''] [] 0 ([], Inr [example_image ''a'' ''x'' 1])"
proof -
  have "fetch_images_older_than_n_latest example_registry [''a''] [] 0
     ([], Inr [example_image ''a'' ''x'' 1])"
    unfolding fetch_images_older_than_n_latest_def
  proof (rule loop_next [OF example_run_a])
    show "exclude_latest_step 0 [] [example_image ''a'' ''x'' 1] = Inr [example_image ''a'' ''x'' 1]"
      by (simp add: exclude_latest_step_def slice_from_def)
    show "older_loop example_registry [] 0 [] ([] @ [], [example_image ''a'' ''x'' 1])
        ([], Inr [example_image ''a'' ''x'' 1])"
      using loop_end [of example_registry "[]" 0 "[]" "[example_image ''a'' ''x'' 1]"] by simp
  qed
  moreover have "images_fetch example_registry [''a''] [] 0 ([], Inr [example_image ''a'' ''x'' 1])"
    using example_run_a by (simp add: images_fetch_def)
  ultimately show ?thesis ..
qed

text \<open>
  C7, evaluated on the example registry, whose repository \<open>c\<close> cannot be listed: the
  goroutine for \<open>c\<close> sends no tags and writes no log line, the sibling repository \<open>a\<close> is
  fetched as if \<open>c\<close> had not been asked for (\<open>failed_listing_skipped\<close> is the general
  fact), and no run of \<^verbatim>\<open>fetch_images\<close> on \<open>c\<close> and \<open>a\<close> writes anything to the log. The
  image goroutine logs its failure; the tag goroutine does not.
\<close>

theorem failed_listing_is_not_logged:
  "Tags example_registry ''c'' = Inl (RegistryError ''404'')
   \<and> tag_worker example_registry ''c'' = ([], [])
   \<and> fetch_images example_registry [''c'', ''a''] [] ([], [example_image ''a'' ''x'' 1])
   \<and> \<not> (\<exists>log imgs. fetch_images example_registry [''c'', ''a''] [] (log, imgs) \<and> log \<noteq> [])"
proof -
  have c: "Tags example_registry ''c'' = Inl (RegistryError ''404'')"
    by (simp add: example_registry_def)
  have "fetch_images example_registry [''c'', ''a''] [] (log, imgs) \<Longrightarrow> log = []" for log imgs
    unfolding failed_listing_skipped [OF c]
    by (simp add: fetch_images_single repo_fetches_def img_worker_def example_registry_def)
  moreover have "fetch_images example_registry [''c'', ''a''] [] ([], [example_image ''a'' ''x'' 1])"
    unfolding failed_listing_skipped [OF c] by (rule example_run_a)
  ultimately show ?thesis
    using c by (auto simp: tag_worker_def)
qed

text \<open>
  C8: two filter chains that are permutations of each other keep the same images from every
  received sequence (and in the same order).
\<close>

theorem filter_order_irrelevant:
  "mset fs = mset gs \<Longrightarrow> collect fs received [] = collect gs received []"
proof -
  assume "mset fs = mset gs"
  then have "set fs = set gs"
    by (rule mset_eq_setD)
  then have "passes fs = passes gs"
    by (intro ext) (simp add: passes_iff)
  then show ?thesis
    by (simp add: collect_filter)
qed

theorem filter_order_irrelevant_witness:
  "mset [older_than 5, (\<lambda>img. Tag img \<noteq> ''rc2'')] = mset [(\<lambda>img. Tag img \<noteq> ''rc2''), older_than 5]
   \<and> collect [older_than 5, (\<lambda>img. Tag img \<noteq> ''rc2'')]
        [\<lparr>Name = ''web'', Tag = ''rc2'', ContentDigest = ''d1'', Created = 1\<rparr>,
         \<lparr>Name = ''web'', Tag = ''old'', ContentDigest = ''d3'', Created = 2\<rparr>] []
     = collect [(\<lambda>img. Tag img \<noteq> ''rc2''), older_than 5]
        [\<lparr>Name = ''web'', Tag = ''rc2'', ContentDigest = ''d1'', Created = 1\<rparr>,
         \<lparr>Name = ''web'', Tag = ''old'', ContentDigest = ''d3'', Created = 2\<rparr>] []"
proof -
  have h: "mset [older_than 5, (\<lambda>img. Tag img \<noteq> ''rc2'')]
      = mset [(\<lambda>img. Tag img \<noteq> ''rc2''), older_than 5]"
    by simp
  from h filter_order_irrelevant [OF h] show ?thesis
    by blast
qed

text \<open>
  C9, evaluated on the example registry with the repositories \<open>a\<close> and \<open>b\<close>: two runs on
  the same registry, repositories and filters return different images (all creation times
  differ, so this is not a matter of ties). In the first every goroutine reads its own
  arrival. In the second the goroutine started for tag \<open>x\<close> of \<open>a\<close> reads
  \<^verbatim>\<open>currepotags\<close> after the loop has received the tags of \<open>b\<close>, and fetches \<open>b:x\<close>.
  On one repository the claim holds (\<open>single_repository_runs_agree\<close>).
\<close>

theorem shared_loop_variable_changes_result:
  "fetch_images example_registry [''a'', ''b''] []
     ([''Unable to get image (b:z): 504''],
      [example_image ''b'' ''w'' 4, example_image ''b'' ''y'' 3, example_image ''a'' ''x'' 1])
   \<and> fetch_images example_registry [''a'', ''b''] []
     ([''Unable to get image (b:z): 504''],
      [example_image ''b'' ''w'' 4, example_image ''b'' ''y'' 3, example_image ''b'' ''x'' 2])"
proof
  show "fetch_images example_registry [''a'', ''b''] []
     ([''Unable to get image (b:z): 504''],
      [example_image ''b'' ''w'' 4, example_image ''b'' ''y'' 3, example_image ''a'' ''x'' 1])"
    unfolding fetch_images_def run_iff
    using example_own_reads_a_b
    by (intro exI [of _ "[\<lparr>repo = ''a'', tags = [''x'']\<rparr>, \<lparr>repo = ''b'', tags = [''y'', ''z'', ''w'']\<rparr>]"]
        exI [of _ "[([], [example_image ''a'' ''x'' 1]), ([], [example_image ''b'' ''y'' 3]),
          ([''Unable to get image (b:z): 504''], []), ([], [example_image ''b'' ''w'' 4])]"])
       (simp add: example_spawned_a_b tag_worker_def example_registry_def newest_first_def
          example_image_def)
  show "fetch_images example_registry [''a'', ''b''] []
     ([''Unable to get image (b:z): 504''],
      [example_image ''b'' ''w'' 4, example_image ''b'' ''y'' 3, example_image ''b'' ''x'' 2])"
    unfolding fetch_images_def run_iff
    using example_late_read_a_b
    by (intro exI [of _ "[\<lparr>repo = ''a'', tags = [''x'']\<rparr>, \<lparr>repo = ''b'', tags = [''y'', ''z'', ''w'']\<rparr>]"]
        exI [of _ "[([], [example_image ''b'' ''x'' 2]), ([], [example_image ''b'' ''y'' 3]),
          ([''Unable to get image (b:z): 504''], []), ([], [example_image ''b'' ''w'' 4])]"])
       (simp add: example_spawned_a_b tag_worker_def example_registry_def newest_first_def
          example_image_def)
qed

text \<open>
  C10: under the guard \<^verbatim>\<open>len(repoimgs) > n\<close> the slice expression \<^verbatim>\<open>repoimgs[n:]\<close> is in
  range whenever \<open>n \<ge> 0\<close>, and then the function never panics. The condition is needed:
  for \<open>n < 0\<close> the guard holds for every slice, the empty one included, the slice
  expression panics, and so does every run of the function on a list of repositories
  that is not empty (and such a run exists).
\<close>

theorem slice_guard_needs_nonnegative_n:
  "(0 \<le> n \<and> int (length repoimgs) > n \<longrightarrow> slice_from repoimgs n = Inr (drop (nat n) repoimgs))
   \<and> (n < 0 \<longrightarrow> int (length repoimgs) > n
          \<and> slice_from repoimgs n = Inl SliceBoundsOutOfRange
          \<and> exclude_latest_step n allimgs repoimgs = Inl SliceBoundsOutOfRange)
   \<and> (0 \<le> n \<and> fetch_images_older_than_n_latest r repos filters n (log, res)
          \<longrightarrow> (\<exists>imgs. res = Inr imgs))
   \<and> (n < 0 \<longrightarrow>
          (\<exists>log'. fetch_images_older_than_n_latest r (rp # repos) filters n (log', Inl SliceBoundsOutOfRange))
          \<and> (fetch_images_older_than_n_latest r (rp # repos) filters n (log, res)
                \<longrightarrow> res = Inl SliceBoundsOutOfRange))"
proof (intro conjI impI)
  assume "0 \<le> n \<and> int (length repoimgs) > n"
  then show "slice_from repoimgs n = Inr (drop (nat n) repoimgs)"
    by (simp add: slice_from_def)
next
  assume "n < 0"
  then show "int (length repoimgs) > n"
    by simp
next
  assume "n < 0"
  then show "slice_from repoimgs n = Inl SliceBoundsOutOfRange"
    by (simp add: slice_from_def)
next
  assume "n < 0"
  then show "exclude_latest_step n allimgs repoimgs = Inl SliceBoundsOutOfRange"
    by (rule step_neg)
next
  assume "0 \<le> n \<and> fetch_images_older_than_n_latest r repos filters n (log, res)"
  then show "\<exists>imgs. res = Inr imgs"
    using older_zero_panic_free by blast
next
  assume n: "n < 0"
  obtain lg repoimgs' where "fetch_images r [rp] filters (lg, repoimgs')"
    using fetch_images_single_total by blast
  then have "fetch_images_older_than_n_latest r (rp # repos) filters n (lg, Inl SliceBoundsOutOfRange)"
    unfolding fetch_images_older_than_n_latest_def older_loop_neg [OF n] by auto
  then show "\<exists>log'. fetch_images_older_than_n_latest r (rp # repos) filters n
      (log', Inl SliceBoundsOutOfRange)" ..
next
  assume n: "n < 0" and "fetch_images_older_than_n_latest r (rp # repos) filters n (log, res)"
  then show "res = Inl SliceBoundsOutOfRange"
    unfolding fetch_images_older_than_n_latest_def older_loop_neg [OF n] by auto
qed

theorem slice_guard_needs_nonnegative_n_witness:
  "(- 1 :: int) < 0
   \<and> int (length ([] :: DockerImage list)) > - 1
   \<and> slice_from ([] :: DockerImage list) (- 1) = Inl SliceBoundsOutOfRange
   \<and> fetch_images_older_than_n_latest example_registry [''c''] [] (- 1) ([], Inl SliceBoundsOutOfRange)
   \<and> (0 :: int) \<le> 1
   \<and> slice_from [example_image ''b'' ''w'' 4, example_image ''b'' ''y'' 3] 1
        = Inr [example_image ''b'' ''y'' 3]"
proof -
  have run: "fetch_images_older_than_n_latest example_registry [''c''] [] (- 1)
      ([], Inl SliceBoundsOutOfRange)"
    using example_run_c
    by (auto simp: fetch_images_older_than_n_latest_def older_loop_neg)
  show ?thesis
    using run
      slice_guard_needs_nonnegative_n [of "- 1" "[]" "[]" example_registry "[]" "[]" "[]"
        "Inl SliceBoundsOutOfRange" "''c''"]
      slice_guard_needs_nonnegative_n [of 1 "[example_image ''b'' ''w'' 4, example_image ''b'' ''y'' 3]"
        "[]" example_registry "[]" "[]" "[]" "Inr []" "''c''"]
    by simp
qed

end
